theory Spec2Isabelle
  imports Complex_Main "HOL-Library.Word"
begin

section \<open>Data model (types.go, config.go)\<close>

text \<open>
  A \<^verbatim>\<open>time.Time\<close> is an instant counted in nanoseconds from the zero value of the
  type, so the zero \<^verbatim>\<open>time.Time\<close> is \<open>0\<close>. A \<^verbatim>\<open>time.Duration\<close> is an int64 count of
  nanoseconds. The readings of \<^verbatim>\<open>time.Now()\<close> are inputs of the model.
\<close>

type_synonym time = int
type_synonym Duration = int
type_synonym int64 = "64 word"

text \<open>
  \<^verbatim>\<open>Config\<close>: the registry holds \<^verbatim>\<open>*Config\<close>, taken here as non-nil. \<open>Checker\<close> is the
  identity of the probe object, \<open>OnComplete\<close> says whether the hook is non-nil.
\<close>

record Config =
  Name :: string
  Checker :: nat
  Interval :: Duration
  OnComplete :: bool

text \<open>\<^verbatim>\<open>State\<close>: \<open>Details\<close> is the \<^verbatim>\<open>interface{}\<close> payload, \<open>None\<close> for nil.\<close>

record 'd State =
  Name :: string
  Status :: string
  Err :: string
  Details :: "'d option"
  CheckTime :: time
  ContiguousFailures :: int64
  TimeOfFirstFailure :: time

definition isFailure :: "'d State \<Rightarrow> bool" where
  "isFailure s = (Status s = ''failed'')"

text \<open>The zero value of \<^verbatim>\<open>State\<close>, which a Go map returns for a missing key.\<close>

definition zeroState :: "'d State" where
  "zeroState = \<lparr>State.Name = [], Status = [], Err = [], Details = None,
     CheckTime = 0, ContiguousFailures = 0, TimeOfFirstFailure = 0\<rparr>"

text \<open>
  \<^verbatim>\<open>Time.Sub\<close> returns the difference as a \<^verbatim>\<open>Duration\<close>, saturated at the int64 range.
  \<^verbatim>\<open>Duration.Seconds\<close> is the duration in seconds; the Go value is the float64 nearest
  to the number given here.
\<close>

definition time_Sub :: "time \<Rightarrow> time \<Rightarrow> Duration" where
  "time_Sub t u = max (- (2 ^ 63)) (min (2 ^ 63 - 1) (t - u))"

definition Seconds :: "Duration \<Rightarrow> real" where
  "Seconds d = real_of_int d / 1000000000"

text \<open>
  The calls made on the \<^verbatim>\<open>StatusListener\<close>. Each is started with \<^verbatim>\<open>go\<close> and is handed
  the pointer \<^verbatim>\<open>stateEntry\<close>; the entry recorded here is the one the pointer refers to
  when the \<^verbatim>\<open>go\<close> statement runs.
\<close>

datatype 'd call =
    CheckFailed "'d State"
  | CheckRecovered "'d State" int64 real
  | StillFailing "'d State" int64

text \<open>The errors the scheduler returns, one constructor per message.\<close>

datatype error =
    ConfigExists string        \<comment> \<open>config with name %s already exists\<close>
  | NoCheckFound string        \<comment> \<open>no check found with name %s\<close>
  | AlreadyStarted             \<comment> \<open>monitor already started\<close>
  | FailedToFindCheck string   \<comment> \<open>failed to find check with name %s\<close>
  | AlreadyRunning             \<comment> \<open>check already running\<close>

text \<open>
  \<^verbatim>\<open>Monitor\<close>. \<open>StatusListener\<close> is \<open>True\<close> when the field is non-nil. A stop channel is
  a number; \<open>chans_made\<close> counts the channels made so far, \<open>chans_closed\<close> holds the closed
  ones and \<open>lanes\<close> the goroutines started by \<^verbatim>\<open>startRunner\<close>, each with its config and its stop
  channel. These three belong to the Go runtime, not to the struct. The mutexes and
  \<^verbatim>\<open>RandomStartTimeMillis\<close> only order and delay the lanes; every operation below runs
  as one step.
\<close>

type_synonym chan = nat

record 'd Monitor =
  StatusListener :: bool
  configs :: "Config list"
  states :: "string \<rightharpoonup> 'd State"
  runners :: "string \<rightharpoonup> chan"
  started :: bool
  chans_made :: nat
  chans_closed :: "chan set"
  lanes :: "(Config \<times> chan) list"

definition New :: "'d Monitor" where
  "New = \<lparr>StatusListener = False, configs = [], states = Map.empty, runners = Map.empty,
     started = False, chans_made = 0, chans_closed = {}, lanes = []\<rparr>"

section \<open>Registry and lifecycle (types.go)\<close>

text \<open>
  \<^verbatim>\<open>AddCheck\<close>: the outer loop runs over the registered configs, the inner one over the
  arguments; the first pair with equal names gives the error.
\<close>

fun AddCheck_scan :: "Config list \<Rightarrow> Config list \<Rightarrow> string option" where
  "AddCheck_scan [] cfg = None"
| "AddCheck_scan (existing # rest) cfg =
     (case find (\<lambda>c. Config.Name c = Config.Name existing) cfg of
        Some c \<Rightarrow> Some (Config.Name c)
      | None \<Rightarrow> AddCheck_scan rest cfg)"

definition AddCheck :: "'d Monitor \<Rightarrow> Config list \<Rightarrow> error option \<times> 'd Monitor" where
  "AddCheck h cfg =
     (case AddCheck_scan (configs h) cfg of
        Some n \<Rightarrow> (Some (ConfigExists n), h)
      | None \<Rightarrow> (None, h\<lparr>configs := configs h @ cfg\<rparr>))"

definition StopCheck :: "'d Monitor \<Rightarrow> string \<Rightarrow> error option \<times> 'd Monitor" where
  "StopCheck h name =
     (case runners h name of
        Some stop \<Rightarrow>
          (None, h\<lparr>chans_closed := insert stop (chans_closed h),
                    runners := (runners h)(name := None),
                    states := (states h)(name := None)\<rparr>)
      | None \<Rightarrow> (Some (FailedToFindCheck name), h))"

text \<open>
  \<^verbatim>\<open>RemoveCheck\<close>: \<open>pre\<close> is \<^verbatim>\<open>h.configs[:idx]\<close>, the list argument is what is left to
  visit, so at a match \<open>post\<close> is \<^verbatim>\<open>h.configs[idx+1:]\<close>.
\<close>

fun RemoveCheck_from ::
  "Config list \<Rightarrow> Config list \<Rightarrow> 'd Monitor \<Rightarrow> Config \<Rightarrow> error option \<times> 'd Monitor" where
  "RemoveCheck_from pre [] h cfg = (Some (NoCheckFound (Config.Name cfg)), h)"
| "RemoveCheck_from pre (existing # post) h cfg =
     (if Config.Name cfg = Config.Name existing then
        (if started h then
           (case StopCheck h (Config.Name cfg) of
              (Some e, h') \<Rightarrow> (Some e, h')
            | (None, h') \<Rightarrow> (None, h'\<lparr>configs := pre @ post\<rparr>))
         else (None, h\<lparr>configs := pre @ post\<rparr>))
      else RemoveCheck_from (pre @ [existing]) post h cfg)"

definition RemoveCheck :: "'d Monitor \<Rightarrow> Config \<Rightarrow> error option \<times> 'd Monitor" where
  "RemoveCheck h cfg = RemoveCheck_from [] (configs h) h cfg"

definition startRunner :: "'d Monitor \<Rightarrow> Config \<Rightarrow> chan \<Rightarrow> 'd Monitor" where
  "startRunner h c stop = h\<lparr>lanes := lanes h @ [(c, stop)]\<rparr>"

definition startRunnerForConfig :: "'d Monitor \<Rightarrow> Config \<Rightarrow> 'd Monitor" where
  "startRunnerForConfig h c =
     (let stop = chans_made h;
          h1 = startRunner (h\<lparr>chans_made := Suc (chans_made h)\<rparr>) c stop
      in h1\<lparr>runners := (runners h1)(Config.Name c \<mapsto> stop)\<rparr>)"

definition Start :: "'d Monitor \<Rightarrow> error option \<times> 'd Monitor" where
  "Start h =
     (if started h then (Some AlreadyStarted, h)
      else (None, foldl startRunnerForConfig (h\<lparr>started := True\<rparr>) (configs h)))"

definition StartCheck :: "'d Monitor \<Rightarrow> string \<Rightarrow> error option \<times> 'd Monitor" where
  "StartCheck h name =
     (case foldl (\<lambda>found existing. if name = Config.Name existing then Some existing else found)
             None (configs h) of
        None \<Rightarrow> (Some (FailedToFindCheck name), h)
      | Some found \<Rightarrow>
          (case runners h name of
             Some stop \<Rightarrow> (Some AlreadyRunning, h)
           | None \<Rightarrow> (None, startRunnerForConfig h found)))"

definition safeResetStates :: "'d Monitor \<Rightarrow> 'd Monitor" where
  "safeResetStates h = h\<lparr>states := Map.empty\<rparr>"

definition Stop :: "'d Monitor \<Rightarrow> error option \<times> 'd Monitor" where
  "Stop h =
     (let h1 = h\<lparr>chans_closed := chans_closed h \<union> ran (runners h)\<rparr>;
          h2 = h1\<lparr>runners := Map.empty\<rparr>;
          h3 = safeResetStates h2
      in (None, h3\<lparr>started := False\<rparr>))"

definition safeGetStates :: "'d Monitor \<Rightarrow> (string \<rightharpoonup> 'd State)" where
  "safeGetStates h = states h"

definition State :: "'d Monitor \<Rightarrow> (string \<rightharpoonup> 'd State) \<times> error option" where
  "State h = (safeGetStates h, None)"

section \<open>The transition detector and one run of a check\<close>

text \<open>
  \<^verbatim>\<open>handleStatusListener\<close> changes the entry it is given and starts the listener calls;
  \<open>now\<close> is the reading of \<^verbatim>\<open>time.Now()\<close> inside it (each path reads the clock at most
  once).
\<close>

definition handleStatusListener ::
  "'d Monitor \<Rightarrow> 'd State \<Rightarrow> time \<Rightarrow> 'd State \<times> 'd call list" where
  "handleStatusListener h stateEntry now =
     (let prevState = (case states h (State.Name stateEntry) of
                         None \<Rightarrow> zeroState | Some s \<Rightarrow> s)
      in if isFailure stateEntry then
           (if \<not> isFailure prevState then
              (stateEntry\<lparr>TimeOfFirstFailure := now,
                          ContiguousFailures := ContiguousFailures prevState + 1\<rparr>,
               if StatusListener h then [CheckFailed stateEntry] else [])
            else
              (let carried = stateEntry\<lparr>TimeOfFirstFailure := TimeOfFirstFailure prevState\<rparr>
               in (carried\<lparr>ContiguousFailures := ContiguousFailures prevState + 1\<rparr>,
                   if StatusListener h
                   then [StillFailing carried (ContiguousFailures prevState)] else [])))
         else if isFailure prevState then
           (stateEntry,
            if StatusListener h
            then [CheckRecovered stateEntry (ContiguousFailures prevState)
                    (Seconds (time_Sub now (TimeOfFirstFailure prevState)))]
            else [])
         else (stateEntry, []))"

definition safeUpdateState ::
  "'d Monitor \<Rightarrow> 'd State \<Rightarrow> time \<Rightarrow> 'd Monitor \<times> 'd State \<times> 'd call list" where
  "safeUpdateState h stateEntry now =
     (case handleStatusListener h stateEntry now of
        (entry, calls) \<Rightarrow>
          (h\<lparr>states := (states h)(State.Name entry \<mapsto> entry)\<rparr>, entry, calls))"

text \<open>
  One run of \<^verbatim>\<open>checkFunc\<close> in a lane of \<^verbatim>\<open>startRunner\<close>. The probe's answer is
  \<open>(data, err)\<close>, with \<open>err = Some m\<close> for an error whose \<^verbatim>\<open>Error()\<close> is \<open>m\<close>; \<open>checked\<close> is
  the clock read for \<^verbatim>\<open>CheckTime\<close>. The result is the monitor, the listener calls and
  the entries handed to \<^verbatim>\<open>OnComplete\<close>.
\<close>

definition buildEntry :: "Config \<Rightarrow> 'd option \<Rightarrow> string option \<Rightarrow> time \<Rightarrow> 'd State" where
  "buildEntry cfg dat err checked =
     (let stateEntry = \<lparr>State.Name = Config.Name cfg, Status = ''ok'', Err = [],
            Details = dat, CheckTime = checked, ContiguousFailures = 0,
            TimeOfFirstFailure = 0\<rparr>
      in case err of
           None \<Rightarrow> stateEntry
         | Some m \<Rightarrow> stateEntry\<lparr>Err := m, Status := ''failed''\<rparr>)"

definition checkFunc ::
  "'d Monitor \<Rightarrow> Config \<Rightarrow> 'd option \<Rightarrow> string option \<Rightarrow> time \<Rightarrow> time
     \<Rightarrow> 'd Monitor \<times> 'd call list \<times> 'd State list" where
  "checkFunc h cfg dat err checked now =
     (case safeUpdateState h (buildEntry cfg dat err checked) now of
        (h', entry, calls) \<Rightarrow> (h', calls, if OnComplete cfg then [entry] else []))"

text \<open>One run of \<^verbatim>\<open>checkFunc\<close> with everything it reads from outside.\<close>

datatype 'd tick = Tick Config "'d option" "string option" time time

fun tick_name :: "'d tick \<Rightarrow> string" where
  "tick_name (Tick cfg dat err checked now) = Config.Name cfg"

fun tick_failed :: "'d tick \<Rightarrow> bool" where
  "tick_failed (Tick cfg dat err checked now) = (err \<noteq> None)"

fun do_tick :: "'d Monitor \<Rightarrow> 'd tick \<Rightarrow> 'd Monitor" where
  "do_tick h (Tick cfg dat err checked now) = fst (checkFunc h cfg dat err checked now)"

text \<open>The operations of the scheduler, for statements about all of them.\<close>

datatype op =
    OpAddCheck "Config list"
  | OpRemoveCheck Config
  | OpStart
  | OpStopCheck string
  | OpStartCheck string
  | OpStop
  | OpState

fun exec :: "'d Monitor \<Rightarrow> op \<Rightarrow> error option \<times> 'd Monitor" where
  "exec h (OpAddCheck cfg) = AddCheck h cfg"
| "exec h (OpRemoveCheck cfg) = RemoveCheck h cfg"
| "exec h OpStart = Start h"
| "exec h (OpStopCheck name) = StopCheck h name"
| "exec h (OpStartCheck name) = StartCheck h name"
| "exec h OpStop = Stop h"
| "exec h OpState = (snd (State h), h)"

text \<open>
  A history of a monitor: the calls of the scheduler's operations, the runs of
  \<^verbatim>\<open>checkFunc\<close> of all lanes and the assignments to the public field
  \<^verbatim>\<open>StatusListener\<close>, in the order in which they take place, from \<^verbatim>\<open>New()\<close>.
\<close>

datatype 'd event = Probe "'d tick" | Call op | Listen bool

fun step :: "'d Monitor \<Rightarrow> 'd event \<Rightarrow> 'd Monitor" where
  "step h (Probe t) = do_tick h t"
| "step h (Call c) = snd (exec h c)"
| "step h (Listen l) = h\<lparr>StatusListener := l\<rparr>"

definition run :: "'d event list \<Rightarrow> 'd Monitor" where
  "run evs = foldl step New evs"

text \<open>
  The errors the operations of a history return, in order (\<open>None\<close> for a call that
  succeeds).
\<close>

fun returned :: "'d Monitor \<Rightarrow> 'd event list \<Rightarrow> error option list" where
  "returned h [] = []"
| "returned h (Call c # evs) = fst (exec h c) # returned (snd (exec h c)) evs"
| "returned h (ev # evs) = returned (step h ev) evs"

fun is_Probe :: "'d event \<Rightarrow> bool" where
  "is_Probe (Probe t) = True"
| "is_Probe ev = False"

text \<open>
  The number of failed runs of the check \<open>n\<close> in a history since its last run without
  error.
\<close>

fun streak_step :: "string \<Rightarrow> nat \<Rightarrow> 'd event \<Rightarrow> nat" where
  "streak_step n k (Probe t) =
     (if tick_name t = n then (if tick_failed t then Suc k else 0) else k)"
| "streak_step n k ev = k"

definition streak :: "string \<Rightarrow> 'd event list \<Rightarrow> nat" where
  "streak n evs = foldl (streak_step n) 0 evs"

section \<open>What the store can hold\<close>

text \<open>
  An entry stored under the name \<open>n\<close> is either a passing one, with no failures counted
  and no time of first failure, or a failing one whose counter is the int64 image of a
  number between 1 and \<open>bound\<close>.
\<close>

definition entry_ok :: "nat \<Rightarrow> string \<Rightarrow> 'd State \<Rightarrow> bool" where
  "entry_ok bound n s =
     (State.Name s = n \<and>
      (Status s = ''ok'' \<and> ContiguousFailures s = 0 \<and> TimeOfFirstFailure s = 0 \<or>
       Status s = ''failed'' \<and>
         (\<exists>k. 1 \<le> k \<and> k \<le> bound \<and> ContiguousFailures s = of_nat k)))"

section \<open>Concrete checks and histories\<close>

text \<open>
  Three descriptors, two of them with the same name, and short histories of a monitor
  whose probe answers as the mock checker of the tests does (a string payload, the
  error \<open>failure\<close>). The interval is 100 ms; times are in nanoseconds.
\<close>

definition db :: Config where
  "db = \<lparr>Config.Name = ''db'', Checker = 0, Interval = 100000000, OnComplete = False\<rparr>"

definition api :: Config where
  "api = \<lparr>Config.Name = ''api'', Checker = 1, Interval = 100000000, OnComplete = False\<rparr>"

definition db_again :: Config where
  "db_again = \<lparr>Config.Name = ''db'', Checker = 2, Interval = 1000000000, OnComplete = True\<rparr>"

text \<open>The monitor is made, given a listener or none, \<open>db\<close> is registered, all is started.\<close>

definition boot :: "bool \<Rightarrow> string event list" where
  "boot l = [Listen l, Call (OpAddCheck [db]), Call OpStart]"

definition failed_at :: "time \<Rightarrow> time \<Rightarrow> string event" where
  "failed_at checked now = Probe (Tick db (Some []) (Some ''failure'') checked now)"

definition passed_at :: "time \<Rightarrow> time \<Rightarrow> string event" where
  "passed_at checked now = Probe (Tick db (Some ''Working just fine'') None checked now)"

text \<open>\<open>db\<close> is registered and started, then stopped on its own.\<close>

definition stopped_alone :: "string event list" where
  "stopped_alone = [Call (OpAddCheck [db]), Call OpStart, Call (OpStopCheck ''db'')]"

text \<open>\<open>db\<close> is registered and started on its own; \<^verbatim>\<open>Start\<close> is never called.\<close>

definition started_alone :: "string event list" where
  "started_alone = [Call (OpAddCheck [db]), Call (OpStartCheck ''db'')]"

text \<open>\<open>db\<close> and \<open>api\<close> are running and each has reported once.\<close>

definition two_running :: "string event list" where
  "two_running = [Call (OpAddCheck [db, api]), Call OpStart, failed_at 1000 1200,
     Probe (Tick api (Some ''Working just fine'') None 2000 2100)]"

text \<open>
  \<open>db\<close> runs and fails twice, with calls of the scheduler before, between and after the
  two runs.
\<close>

definition failing_between_calls :: "string event list" where
  "failing_between_calls =
     [Call (OpAddCheck [db]), Call OpStart, failed_at 1000 1200, Call OpStart,
      Call (OpAddCheck [api]), failed_at 2000 2200, Call (OpStartCheck ''api''),
      Call OpState, Call (OpStopCheck ''db''), Call (OpRemoveCheck db), Call OpStop]"

section \<open>Unfolding and evaluation\<close>

lemmas check_defs = checkFunc_def safeUpdateState_def handleStatusListener_def buildEntry_def
  isFailure_def zeroState_def Let_def

lemmas eval_defs = run_def New_def boot_def failed_at_def passed_at_def stopped_alone_def
  started_alone_def two_running_def StartCheck_def
  db_def api_def db_again_def AddCheck_def Start_def StopCheck_def RemoveCheck_def
  startRunnerForConfig_def startRunner_def check_defs Seconds_def time_Sub_def

lemma handle_keeps [simp]:
  "State.Name (fst (handleStatusListener h e now)) = State.Name e"
  "Status (fst (handleStatusListener h e now)) = Status e"
  "Err (fst (handleStatusListener h e now)) = Err e"
  by (simp_all add: handleStatusListener_def isFailure_def Let_def)

lemma buildEntry_fields [simp]:
  "State.Name (buildEntry cfg dat err checked) = Config.Name cfg"
  "Status (buildEntry cfg dat err checked) = (if err = None then ''ok'' else ''failed'')"
  "Err (buildEntry cfg dat err checked) = (case err of None \<Rightarrow> [] | Some m \<Rightarrow> m)"
  "ContiguousFailures (buildEntry cfg dat err checked) = 0"
  "TimeOfFirstFailure (buildEntry cfg dat err checked) = 0"
  by (simp_all add: buildEntry_def Let_def split: option.splits)

text \<open>A run of \<^verbatim>\<open>checkFunc\<close> writes one entry, under the name of its config.\<close>

lemma checkFunc_monitor:
  "fst (checkFunc h cfg dat err checked now) =
     h\<lparr>states := (states h)(Config.Name cfg \<mapsto>
          fst (handleStatusListener h (buildEntry cfg dat err checked) now))\<rparr>"
  by (simp add: checkFunc_def safeUpdateState_def split: prod.splits)
    (metis fst_conv handle_keeps(1) buildEntry_fields(1))

lemma run_snoc: "run (evs @ [ev]) = step (run evs) ev"
  by (simp add: run_def)

lemma run_append: "run (evs @ evs') = foldl step (run evs) evs'"
  by (simp add: run_def)

lemma streak_snoc: "streak n (evs @ [ev]) = streak_step n (streak n evs) ev"
  by (simp add: streak_def)

section \<open>Registration\<close>

lemma AddCheck_scan_None:
  "(AddCheck_scan xs cfg = None) =
     (\<forall>e\<in>set xs. \<forall>c\<in>set cfg. Config.Name c \<noteq> Config.Name e)"
proof (induction xs)
  case Nil
  show ?case by simp
next
  case (Cons x xs)
  show ?case
  proof (cases "find (\<lambda>c. Config.Name c = Config.Name x) cfg")
    case None
    then have "\<forall>c\<in>set cfg. Config.Name c \<noteq> Config.Name x"
      by (simp add: find_None_iff)
    then show ?thesis using Cons.IH None by auto
  next
    case (Some c)
    then have "c \<in> set cfg" "Config.Name c = Config.Name x"
      by (auto simp: find_Some_iff)
    then show ?thesis using Some by auto
  qed
qed

lemma AddCheck_scan_Some:
  "AddCheck_scan xs cfg = Some n \<Longrightarrow>
     \<exists>c\<in>set cfg. \<exists>e\<in>set xs. Config.Name c = Config.Name e \<and> n = Config.Name c"
proof (induction xs)
  case Nil
  then show ?case by simp
next
  case (Cons x xs)
  show ?case
  proof (cases "find (\<lambda>c. Config.Name c = Config.Name x) cfg")
    case None
    then show ?thesis using Cons by auto
  next
    case (Some c)
    then have "c \<in> set cfg" "Config.Name c = Config.Name x"
      by (auto simp: find_Some_iff)
    then show ?thesis using Cons.prems Some by auto
  qed
qed

lemma AddCheck_scan_single:
  "AddCheck_scan xs [c] =
     (if \<exists>e\<in>set xs. Config.Name e = Config.Name c then Some (Config.Name c) else None)"
  by (induction xs) auto

text \<open>
  C8. Registering one descriptor whose name is the name of a registered descriptor
  fails with the error for an existing config of that name, and the monitor, so also
  its registry, is as it was.
\<close>

theorem AddCheck_duplicate_name:
  "e \<in> set (configs h) \<Longrightarrow> Config.Name c = Config.Name e \<Longrightarrow>
     AddCheck h [c] = (Some (ConfigExists (Config.Name c)), h)"
  by (auto simp: AddCheck_def AddCheck_scan_single)

theorem AddCheck_duplicate_name_witness:
  "db \<in> set (configs (run (boot False))) \<and> Config.Name db_again = Config.Name db \<and>
   AddCheck (run (boot False)) [db_again] = (Some (ConfigExists ''db''), run (boot False))"
proof -
  have reg: "db \<in> set (configs (run (boot False)))"
    by (simp add: eval_defs)
  have same: "Config.Name db_again = Config.Name db"
    by (simp add: db_def db_again_def)
  have "AddCheck (run (boot False)) [db_again] =
          (Some (ConfigExists (Config.Name db_again)), run (boot False))"
    using reg same by (rule AddCheck_duplicate_name)
  then show ?thesis using reg same by (simp add: db_def)
qed

text \<open>
  C10. \<^verbatim>\<open>AddCheck\<close> with several descriptors: if one of them has the name of a
  registered descriptor, the call returns the error for an existing config, naming
  such a descriptor, and leaves the monitor as it was; if none has, the call succeeds
  and appends them all, whether or not two of them share a name.
\<close>

theorem AddCheck_batch:
  "((\<exists>c\<in>set cfg. \<exists>e\<in>set (configs h). Config.Name c = Config.Name e) \<longrightarrow>
      (\<exists>c\<in>set cfg. (\<exists>e\<in>set (configs h). Config.Name c = Config.Name e) \<and>
         AddCheck h cfg = (Some (ConfigExists (Config.Name c)), h))) \<and>
   (\<not> (\<exists>c\<in>set cfg. \<exists>e\<in>set (configs h). Config.Name c = Config.Name e) \<longrightarrow>
      AddCheck h cfg = (None, h\<lparr>configs := configs h @ cfg\<rparr>))"
proof (cases "AddCheck_scan (configs h) cfg")
  case None
  then show ?thesis using AddCheck_scan_None[of "configs h" cfg]
    by (auto simp: AddCheck_def)
next
  case (Some n)
  then show ?thesis
    using AddCheck_scan_Some[OF Some] AddCheck_scan_None[of "configs h" cfg]
    by (auto simp: AddCheck_def)
qed

theorem AddCheck_batch_witness:
  "db \<in> set (configs (run (boot False))) \<and>
   db_again \<in> set [api, db_again] \<and>
   Config.Name db_again = Config.Name db \<and>
   AddCheck (run (boot False)) [api, db_again] =
     (Some (ConfigExists ''db''), run (boot False)) \<and>
   configs (New :: string Monitor) = [] \<and>
   AddCheck (New :: string Monitor) [db, db_again] = (None, New\<lparr>configs := [db, db_again]\<rparr>)"
proof -
  have clash: "\<exists>c\<in>set [api, db_again]. \<exists>e\<in>set (configs (run (boot False))).
      Config.Name c = Config.Name e"
    by (simp add: eval_defs)
  have free: "\<not> (\<exists>c\<in>set [db, db_again]. \<exists>e\<in>set (configs (New :: string Monitor)).
      Config.Name c = Config.Name e)"
    by (simp add: New_def)
  show ?thesis
    using AddCheck_batch[of "[api, db_again]" "run (boot False)"] clash
      AddCheck_batch[of "[db, db_again]" "New :: string Monitor"] free
    by (simp add: eval_defs)
qed

section \<open>Stopping\<close>

text \<open>
  C7. If the runner map has a stop channel for the name, \<^verbatim>\<open>StopCheck\<close> succeeds, the
  state store and the runner map have no entry for the name afterwards, and under
  every other name both hold what they held, as do the registry and the started flag;
  if it has none, \<^verbatim>\<open>StopCheck\<close> returns the error that the check was not found and the
  monitor is as it was.
\<close>

theorem StopCheck_frame:
  "(runners h name \<noteq> None \<longrightarrow>
      fst (StopCheck h name) = None \<and>
      states (snd (StopCheck h name)) name = None \<and>
      runners (snd (StopCheck h name)) name = None \<and>
      (\<forall>n. n \<noteq> name \<longrightarrow>
         states (snd (StopCheck h name)) n = states h n \<and>
         runners (snd (StopCheck h name)) n = runners h n) \<and>
      configs (snd (StopCheck h name)) = configs h \<and>
      started (snd (StopCheck h name)) = started h) \<and>
   (runners h name = None \<longrightarrow> StopCheck h name = (Some (FailedToFindCheck name), h))"
  by (auto simp: StopCheck_def split: option.splits)

theorem StopCheck_frame_witness:
  "runners (run two_running) ''db'' \<noteq> None \<and>
   states (run two_running) ''db'' \<noteq> None \<and>
   states (run two_running) ''api'' \<noteq> None \<and>
   fst (StopCheck (run two_running) ''db'') = None \<and>
   states (snd (StopCheck (run two_running) ''db'')) ''db'' = None \<and>
   runners (snd (StopCheck (run two_running) ''db'')) ''db'' = None \<and>
   ''api'' \<noteq> ''db'' \<and>
   states (snd (StopCheck (run two_running) ''db'')) ''api'' = states (run two_running) ''api'' \<and>
   runners (snd (StopCheck (run two_running) ''db'')) ''api'' = runners (run two_running) ''api'' \<and>
   runners (run two_running) ''cache'' = None \<and>
   StopCheck (run two_running) ''cache'' = (Some (FailedToFindCheck ''cache''), run two_running)"
proof -
  have running: "runners (run two_running) ''db'' \<noteq> None"
    and stored: "states (run two_running) ''db'' \<noteq> None"
      "states (run two_running) ''api'' \<noteq> None"
    and absent: "runners (run two_running) ''cache'' = None"
    by (simp_all add: eval_defs)
  show ?thesis
    using StopCheck_frame[of "run two_running" "''db''"]
      StopCheck_frame[of "run two_running" "''cache''"] running stored absent
    by simp
qed

text \<open>
  C6. \<^verbatim>\<open>Stop\<close> returns no error, whatever the monitor holds; afterwards the state store
  and the runner map are empty, the monitor is not started, and \<^verbatim>\<open>State\<close> returns the
  empty map and no error.
\<close>

theorem Stop_resets:
  "fst (Stop h) = None \<and>
   states (snd (Stop h)) = Map.empty \<and>
   runners (snd (Stop h)) = Map.empty \<and>
   \<not> started (snd (Stop h)) \<and>
   State (snd (Stop h)) = (Map.empty, None)"
  by (simp add: Stop_def safeResetStates_def State_def safeGetStates_def Let_def)

section \<open>Unregistering\<close>

text \<open>
  \<^verbatim>\<open>RemoveCheck\<close> of a name that is not registered fails and changes nothing. Of a
  registered name it removes the first descriptor of that name, after \<^verbatim>\<open>StopCheck\<close> when
  the monitor is started, provided the runner map then has a stop channel for the name.
\<close>

lemma RemoveCheck_from_unknown:
  "\<forall>e\<in>set xs. Config.Name e \<noteq> Config.Name cfg \<Longrightarrow>
     RemoveCheck_from pre xs h cfg = (Some (NoCheckFound (Config.Name cfg)), h)"
proof (induction xs arbitrary: pre)
  case Nil
  show ?case by simp
next
  case (Cons x xs)
  then have "Config.Name cfg \<noteq> Config.Name x" by auto
  then show ?case using Cons by simp
qed

lemma RemoveCheck_unknown:
  "\<forall>e\<in>set (configs h). Config.Name e \<noteq> Config.Name cfg \<Longrightarrow>
     RemoveCheck h cfg = (Some (NoCheckFound (Config.Name cfg)), h)"
  by (simp add: RemoveCheck_def RemoveCheck_from_unknown)

lemma RemoveCheck_from_removes:
  assumes "xs = before @ e # post" and "Config.Name e = Config.Name cfg"
    and "\<forall>x\<in>set before. Config.Name x \<noteq> Config.Name cfg"
    and "started h \<longrightarrow> runners h (Config.Name cfg) \<noteq> None"
  shows "RemoveCheck_from pre xs h cfg =
           (None, (if started h then snd (StopCheck h (Config.Name cfg)) else h)
                    \<lparr>configs := pre @ before @ post\<rparr>)"
  using assms
proof (induction before arbitrary: pre xs)
  case Nil
  then show ?case by (auto simp: StopCheck_def)
next
  case (Cons b before)
  have "Config.Name cfg \<noteq> Config.Name b" using Cons.prems(3) by auto
  moreover have "RemoveCheck_from (pre @ [b]) (before @ e # post) h cfg =
           (None, (if started h then snd (StopCheck h (Config.Name cfg)) else h)
                    \<lparr>configs := (pre @ [b]) @ before @ post\<rparr>)"
    using Cons.prems by (intro Cons.IH) auto
  ultimately show ?case using Cons.prems(1) by simp
qed

lemma RemoveCheck_removes:
  assumes "configs h = before @ e # post" and "Config.Name e = Config.Name cfg"
    and "\<forall>x\<in>set before. Config.Name x \<noteq> Config.Name cfg"
    and "started h \<longrightarrow> runners h (Config.Name cfg) \<noteq> None"
  shows "RemoveCheck h cfg =
           (None, (if started h then snd (StopCheck h (Config.Name cfg)) else h)
                    \<lparr>configs := before @ post\<rparr>)"
  using RemoveCheck_from_removes[OF assms, of "[]"] by (simp add: RemoveCheck_def)

text \<open>
  With the monitor started and no stop channel for the name, \<^verbatim>\<open>RemoveCheck\<close> of a
  registered name returns the error of \<^verbatim>\<open>StopCheck\<close> and removes nothing.
\<close>

lemma RemoveCheck_from_not_running:
  "started h \<Longrightarrow> runners h (Config.Name cfg) = None \<Longrightarrow>
   \<exists>e\<in>set xs. Config.Name e = Config.Name cfg \<Longrightarrow>
     RemoveCheck_from pre xs h cfg = (Some (FailedToFindCheck (Config.Name cfg)), h)"
proof (induction xs arbitrary: pre)
  case Nil
  then show ?case by simp
next
  case (Cons x xs)
  show ?case
  proof (cases "Config.Name cfg = Config.Name x")
    case True
    then show ?thesis using Cons.prems(1,2) by (simp add: StopCheck_def)
  next
    case False
    then have "\<exists>e\<in>set xs. Config.Name e = Config.Name cfg"
      using Cons.prems(3) by auto
    then show ?thesis using False Cons.IH[OF Cons.prems(1,2)] by simp
  qed
qed

lemma RemoveCheck_not_running:
  "started h \<Longrightarrow> runners h (Config.Name cfg) = None \<Longrightarrow>
   \<exists>e\<in>set (configs h). Config.Name e = Config.Name cfg \<Longrightarrow>
     RemoveCheck h cfg = (Some (FailedToFindCheck (Config.Name cfg)), h)"
  by (simp add: RemoveCheck_def RemoveCheck_from_not_running)

text \<open>
  With the monitor not started, \<^verbatim>\<open>RemoveCheck\<close> does not look at the runner map: a
  check started by \<^verbatim>\<open>StartCheck\<close> alone is unregistered while its stop channel stays
  in the map, open.
\<close>

lemma RemoveCheck_leaves_lane:
  "fst (RemoveCheck (run started_alone) db) = None \<and>
   configs (snd (RemoveCheck (run started_alone) db)) = [] \<and>
   runners (snd (RemoveCheck (run started_alone) db)) ''db'' = Some 0 \<and>
   0 \<notin> chans_closed (snd (RemoveCheck (run started_alone) db))"
  by (simp add: eval_defs)

text \<open>
  C5. Unregistering a registered name does not always succeed: \<open>db\<close> is registered, the
  monitor is started and the check has been stopped on its own; \<^verbatim>\<open>RemoveCheck\<close> then
  returns the error of \<^verbatim>\<open>StopCheck\<close>, the monitor is as it was and \<open>db\<close> stays in the
  registry.
\<close>

theorem RemoveCheck_registered_fails:
  "db \<in> set (configs (run stopped_alone)) \<and>
   started (run stopped_alone) \<and>
   runners (run stopped_alone) ''db'' = None \<and>
   RemoveCheck (run stopped_alone) db = (Some (FailedToFindCheck ''db''), run stopped_alone)"
  by (simp add: eval_defs)

section \<open>The store after any history\<close>

lemma of_nat_nonzero: "1 \<le> k \<Longrightarrow> k < 2 ^ 63 \<Longrightarrow> (of_nat k :: int64) \<noteq> 0"
  by (rule of_nat_neq_0) simp_all

lemma sint_of_nat_small: "k < 2 ^ 63 \<Longrightarrow> sint (of_nat k :: int64) = int k"
  by (simp add: signed_of_nat signed_take_bit_int_eq_self)

text \<open>The operations of the scheduler only ever delete entries of the store.\<close>

lemma foldl_startRunnerForConfig_keeps: "states (foldl startRunnerForConfig h cs) = states h"
  by (induction cs arbitrary: h) (simp_all add: startRunnerForConfig_def startRunner_def Let_def)

lemma StopCheck_deletes:
  "states (snd (StopCheck h name)) n = None \<or> states (snd (StopCheck h name)) n = states h n"
  by (simp add: StopCheck_def split: option.splits)

lemma RemoveCheck_from_deletes:
  "states (snd (RemoveCheck_from pre xs h cfg)) n = None \<or>
   states (snd (RemoveCheck_from pre xs h cfg)) n = states h n"
proof (induction xs arbitrary: pre)
  case Nil
  show ?case by simp
next
  case (Cons x xs)
  show ?case
    using Cons.IH[of "pre @ [x]"] StopCheck_deletes[of h "Config.Name cfg" n]
    by (cases "StopCheck h (Config.Name cfg)") (auto split: option.splits)
qed

lemma exec_deletes:
  "states (snd (exec h c)) n = None \<or> states (snd (exec h c)) n = states h n"
proof (cases c)
  case (OpRemoveCheck cfg)
  then show ?thesis using RemoveCheck_from_deletes[of "[]" "configs h" h cfg n]
    by (simp add: RemoveCheck_def)
next
  case (OpStopCheck name)
  then show ?thesis using StopCheck_deletes[of h name n] by simp
qed (simp_all add: AddCheck_def Start_def StartCheck_def Stop_def safeResetStates_def
      foldl_startRunnerForConfig_keeps startRunnerForConfig_def startRunner_def Let_def
      split: option.splits)

lemma entry_ok_mono: "entry_ok b n s \<Longrightarrow> b \<le> b' \<Longrightarrow> entry_ok b' n s"
  unfolding entry_ok_def by (meson le_trans)

lemma handle_passed:
  "entry_ok 0 (Config.Name cfg)
     (fst (handleStatusListener h (buildEntry cfg dat None checked) now))"
  by (simp add: entry_ok_def handleStatusListener_def isFailure_def Let_def buildEntry_def)

lemma handle_failed:
  assumes prev: "\<And>p. states h (Config.Name cfg) = Some p \<Longrightarrow> entry_ok b (Config.Name cfg) p"
  shows "entry_ok (Suc b) (Config.Name cfg)
           (fst (handleStatusListener h (buildEntry cfg dat (Some m) checked) now))"
proof (cases "states h (Config.Name cfg)")
  case None
  then show ?thesis
    by (auto simp: entry_ok_def handleStatusListener_def isFailure_def Let_def buildEntry_def
        zeroState_def intro: exI[of _ 1])
next
  case (Some p)
  from prev[OF Some] consider
      "Status p = ''ok''" "ContiguousFailures p = 0"
    | k where "Status p = ''failed''" "1 \<le> k" "k \<le> b" "ContiguousFailures p = of_nat k"
    unfolding entry_ok_def by blast
  then show ?thesis
  proof cases
    case 1
    with Some show ?thesis
      by (auto simp: entry_ok_def handleStatusListener_def isFailure_def Let_def buildEntry_def
          intro: exI[of _ 1])
  next
    case 2
    with Some show ?thesis
      by (auto simp: entry_ok_def handleStatusListener_def isFailure_def Let_def buildEntry_def
          intro: exI[of _ "Suc k"])
  qed
qed

lemma store_after_history:
  "states (run evs) n = Some s \<Longrightarrow> entry_ok (streak n evs) n s"
proof (induction evs arbitrary: s rule: rev_induct)
  case Nil
  then show ?case by (simp add: run_def New_def)
next
  case (snoc ev evs)
  show ?case
  proof (cases ev)
    case (Call c)
    have "states (run (evs @ [ev])) n = states (run evs) n"
      using snoc.prems exec_deletes[of "run evs" c n] Call by (auto simp: run_snoc)
    then show ?thesis using snoc Call by (simp add: streak_snoc)
  next
    case (Listen l)
    then show ?thesis using snoc by (simp add: run_snoc streak_snoc)
  next
    case (Probe t)
    obtain cfg dat err checked now where t: "t = Tick cfg dat err checked now" by (cases t)
    show ?thesis
    proof (cases "Config.Name cfg = n")
      case False
      then show ?thesis using snoc Probe t
        by (simp add: run_snoc streak_snoc checkFunc_monitor)
    next
      case True
      have prev: "\<And>p. states (run evs) (Config.Name cfg) = Some p \<Longrightarrow>
                      entry_ok (streak n evs) (Config.Name cfg) p"
        using snoc.IH True by simp
      have s: "s = fst (handleStatusListener (run evs) (buildEntry cfg dat err checked) now)"
        using snoc.prems Probe t True by (simp add: run_snoc checkFunc_monitor)
      show ?thesis
      proof (cases err)
        case None
        then show ?thesis
          using handle_passed[where cfg=cfg and h="run evs" and dat=dat and checked=checked
              and now=now] s True Probe t
          by (auto simp: streak_snoc intro: entry_ok_mono)
      next
        case (Some m)
        then show ?thesis
          using handle_failed[OF prev, where dat=dat and m=m and checked=checked and now=now]
            s True Probe t
          by (simp add: streak_snoc)
      qed
    qed
  qed
qed

text \<open>After \<open>k + 1\<close> failed runs in a row of a check with no entry, the counter is \<open>k + 1\<close>.\<close>

lemma failed_repeat:
  assumes "states h (Config.Name cfg) = None"
  shows "\<exists>s. states (foldl step h (replicate (Suc k) (Probe (Tick cfg dat (Some m) checked now))))
               (Config.Name cfg) = Some s \<and>
             Status s = ''failed'' \<and> ContiguousFailures s = of_nat (Suc k)"
proof (induction k)
  case 0
  show ?case using assms by (simp add: check_defs)
next
  case (Suc k)
  let ?ev = "Probe (Tick cfg dat (Some m) checked now)"
  obtain s where s: "states (foldl step h (replicate (Suc k) ?ev)) (Config.Name cfg) = Some s"
      "Status s = ''failed''" "ContiguousFailures s = of_nat (Suc k)"
    using Suc by blast
  have "replicate (Suc (Suc k)) ?ev = replicate (Suc k) ?ev @ [?ev]"
    using replicate_append_same[of "Suc k" ?ev] by simp
  then have "foldl step h (replicate (Suc (Suc k)) ?ev) =
               step (foldl step h (replicate (Suc k) ?ev)) ?ev"
    by (simp only: foldl_append foldl.simps)
  then show ?case using s by (simp add: check_defs)
qed

section \<open>The failure counter and the status\<close>

text \<open>
  C1, as the code has it. After any history, an entry stored for a check whose failed
  runs in a row number fewer than \<open>2 ^ 63\<close> has a failure counter of 0 exactly when its
  status is \<open>ok\<close>, and a counter above 0, read as the int64 it is, exactly when its
  status is \<open>failed\<close>.
\<close>

theorem streak_invariant:
  assumes "states (run evs) n = Some s" and "streak n evs < 2 ^ 63"
  shows "(ContiguousFailures s = 0 \<longleftrightarrow> Status s = ''ok'') \<and>
         (0 < sint (ContiguousFailures s) \<longleftrightarrow> Status s = ''failed'')"
proof -
  from store_after_history[OF assms(1)] consider
      "Status s = ''ok''" "ContiguousFailures s = 0"
    | k where "Status s = ''failed''" "1 \<le> k" "k \<le> streak n evs"
        "ContiguousFailures s = of_nat k"
    unfolding entry_ok_def by blast
  then show ?thesis
  proof cases
    case 1
    then show ?thesis by simp
  next
    case 2
    then have "k < 2 ^ 63" using assms(2) by simp
    then show ?thesis using 2 of_nat_nonzero[of k] sint_of_nat_small[of k] by simp
  qed
qed

theorem streak_invariant_witness:
  "states (run (boot True @ [passed_at 1000 1200, failed_at 2000 2200, failed_at 3000 3200])) ''db'' =
     Some \<lparr>State.Name = ''db'', Status = ''failed'', Err = ''failure'', Details = Some [],
       CheckTime = 3000, ContiguousFailures = 2, TimeOfFirstFailure = 2200\<rparr> \<and>
   streak ''db'' (boot True @ [passed_at 1000 1200, failed_at 2000 2200, failed_at 3000 3200])
     < 2 ^ 63 \<and>
   (2 :: int64) \<noteq> 0 \<and> 0 < sint (2 :: int64)"
proof -
  let ?evs = "boot True @ [passed_at 1000 1200, failed_at 2000 2200, failed_at 3000 3200]"
  let ?s = "\<lparr>State.Name = ''db'', Status = ''failed'', Err = ''failure'', Details = Some [],
       CheckTime = 3000, ContiguousFailures = 2, TimeOfFirstFailure = 2200\<rparr> :: string State"
  have stored: "states (run ?evs) ''db'' = Some ?s"
    by (simp add: eval_defs)
  have short: "streak ''db'' ?evs < 2 ^ 63"
    by (simp add: streak_def eval_defs)
  show ?thesis using streak_invariant[OF stored short] stored short by simp
qed

text \<open>
  C1 without the bound: the counter is an int64 and the detector adds 1 to it with no
  check, so after \<open>2 ^ 63\<close> failed runs in a row the entry is failed with a negative
  counter, and after \<open>2 ^ 64\<close> it is failed with the counter 0.
\<close>

theorem streak_counter_wraps:
  "Status (the (states (run (boot False @ replicate (2 ^ 63) (failed_at 1000 1200))) ''db''))
     = ''failed'' \<and>
   \<not> 0 < sint (ContiguousFailures
       (the (states (run (boot False @ replicate (2 ^ 63) (failed_at 1000 1200))) ''db''))) \<and>
   Status (the (states (run (boot False @ replicate (2 ^ 64) (failed_at 1000 1200))) ''db''))
     \<noteq> ''ok'' \<and>
   ContiguousFailures
       (the (states (run (boot False @ replicate (2 ^ 64) (failed_at 1000 1200))) ''db'')) = 0"
proof -
  have none: "states (run (boot False)) (Config.Name db) = None"
    by (simp add: eval_defs)
  have name: "Config.Name db = ''db''"
    by (simp add: db_def)
  have a: "Suc (2 ^ 63 - 1) = (2::nat) ^ 63" and b: "Suc (2 ^ 64 - 1) = (2::nat) ^ 64"
    by simp_all
  obtain s where s:
    "states (run (boot False @ replicate (2 ^ 63) (failed_at 1000 1200))) ''db'' = Some s"
    "Status s = ''failed''" "ContiguousFailures s = of_nat (2 ^ 63)"
    using failed_repeat[OF none, of "2 ^ 63 - 1" "Some []" "''failure''" 1000 1200]
    unfolding a name run_append failed_at_def by blast
  obtain t where t:
    "states (run (boot False @ replicate (2 ^ 64) (failed_at 1000 1200))) ''db'' = Some t"
    "Status t = ''failed''" "ContiguousFailures t = of_nat (2 ^ 64)"
    using failed_repeat[OF none, of "2 ^ 64 - 1" "Some []" "''failure''" 1000 1200]
    unfolding b name run_append failed_at_def by blast
  have neg: "\<not> 0 < sint (of_nat (2 ^ 63) :: int64)" and zero: "(of_nat (2 ^ 64) :: int64) = 0"
    and diff: "''failed'' \<noteq> ''ok''"
    by simp_all
  have c1: "Status (the (states (run (boot False @ replicate (2 ^ 63) (failed_at 1000 1200))) ''db''))
     = ''failed''"
    unfolding s(1) option.sel by (rule s(2))
  have c2: "\<not> 0 < sint (ContiguousFailures
       (the (states (run (boot False @ replicate (2 ^ 63) (failed_at 1000 1200))) ''db'')))"
    unfolding s(1) option.sel s(3) by (rule neg)
  have c3: "Status (the (states (run (boot False @ replicate (2 ^ 64) (failed_at 1000 1200))) ''db''))
     \<noteq> ''ok''"
    unfolding t(1) option.sel t(2) by (rule diff)
  have c4: "ContiguousFailures
       (the (states (run (boot False @ replicate (2 ^ 64) (failed_at 1000 1200))) ''db'')) = 0"
    unfolding t(1) option.sel t(3) by (rule zero)
  show ?thesis using c1 c2 c3 c4 by blast
qed

section \<open>The three transitions\<close>

text \<open>
  C4, as the code has it. After any history, a failed run of a check whose stored
  entry is absent or not failing stores an entry with the counter 1 and, as time of
  first failure, the clock read inside the detector (not the \<^verbatim>\<open>CheckTime\<close> of the entry);
  when a listener is attached it starts exactly one call, \<^verbatim>\<open>CheckFailed\<close>, and none
  otherwise.
\<close>

theorem new_failure:
  assumes "\<forall>prev. states (run evs) (Config.Name cfg) = Some prev \<longrightarrow> \<not> isFailure prev"
  shows "\<exists>s. states (fst (checkFunc (run evs) cfg dat (Some m) checked now)) (Config.Name cfg)
               = Some s \<and>
           Status s = ''failed'' \<and>
           TimeOfFirstFailure s = now \<and>
           ContiguousFailures s = 1 \<and>
           fst (snd (checkFunc (run evs) cfg dat (Some m) checked now)) =
             (if StatusListener (run evs)
              then [CheckFailed (s\<lparr>TimeOfFirstFailure := 0, ContiguousFailures := 0\<rparr>)]
              else [])"
proof (cases "states (run evs) (Config.Name cfg)")
  case None
  then show ?thesis by (auto simp: check_defs)
next
  case (Some p)
  then have "Status p \<noteq> ''failed''" using assms by (simp add: isFailure_def)
  moreover have "entry_ok (streak (Config.Name cfg) evs) (Config.Name cfg) p"
    using store_after_history[OF Some] .
  ultimately have "ContiguousFailures p = 0" by (auto simp: entry_ok_def)
  then show ?thesis using assms Some by (auto simp: check_defs)
qed

theorem new_failure_witness:
  "states (run (boot True @ [passed_at 1000 1200])) (Config.Name db) =
     Some \<lparr>State.Name = ''db'', Status = ''ok'', Err = [], Details = Some ''Working just fine'',
       CheckTime = 1000, ContiguousFailures = 0, TimeOfFirstFailure = 0\<rparr> \<and>
   \<not> isFailure \<lparr>State.Name = ''db'', Status = ''ok'', Err = [],
       Details = Some ''Working just fine'', CheckTime = 1000, ContiguousFailures = 0,
       TimeOfFirstFailure = 0 :: time\<rparr> \<and>
   states (fst (checkFunc (run (boot True @ [passed_at 1000 1200])) db
       (Some []) (Some ''failure'') 2000 2200)) ''db'' =
     Some \<lparr>State.Name = ''db'', Status = ''failed'', Err = ''failure'', Details = Some [],
       CheckTime = 2000, ContiguousFailures = 1, TimeOfFirstFailure = 2200\<rparr> \<and>
   fst (snd (checkFunc (run (boot True @ [passed_at 1000 1200])) db
       (Some []) (Some ''failure'') 2000 2200)) =
     [CheckFailed \<lparr>State.Name = ''db'', Status = ''failed'', Err = ''failure'', Details = Some [],
       CheckTime = 2000, ContiguousFailures = 0, TimeOfFirstFailure = 0\<rparr>]"
proof -
  let ?p = "\<lparr>State.Name = ''db'', Status = ''ok'', Err = [],
       Details = Some ''Working just fine'', CheckTime = 1000, ContiguousFailures = 0,
       TimeOfFirstFailure = 0\<rparr> :: string State"
  have stored: "states (run (boot True @ [passed_at 1000 1200])) (Config.Name db) = Some ?p"
    by (simp add: eval_defs)
  have passing: "\<not> isFailure ?p"
    by (simp add: isFailure_def)
  have hyp: "\<forall>prev. states (run (boot True @ [passed_at 1000 1200])) (Config.Name db)
      = Some prev \<longrightarrow> \<not> isFailure prev"
    using stored passing by simp
  show ?thesis
    using new_failure[OF hyp, of "Some []" "''failure''" 2000 2200] stored passing
    by (simp add: eval_defs)
qed

text \<open>
  C4 as first stated: a first failure observed at 2000 and handled at 2200, with no
  listener. The time of first failure is 2200, not 2000, and no call is made.
\<close>

theorem first_failure_time_is_read_later:
  "CheckTime (the (states (fst (checkFunc (run (boot False)) db
       (Some []) (Some ''failure'') 2000 2200)) ''db'')) = 2000 \<and>
   TimeOfFirstFailure (the (states (fst (checkFunc (run (boot False)) db
       (Some []) (Some ''failure'') 2000 2200)) ''db'')) = 2200 \<and>
   fst (snd (checkFunc (run (boot False)) db (Some []) (Some ''failure'') 2000 2200)) = []"
  by (simp add: eval_defs)

text \<open>
  C2, as the code has it. A failed run of a check whose stored entry is failing stores
  an entry with the time of first failure of the stored one and its counter plus 1;
  when a listener is attached it starts exactly one call, \<^verbatim>\<open>StillFailing\<close> with the
  counter of the stored entry, and none otherwise.
\<close>

theorem still_failing:
  assumes "states h (Config.Name cfg) = Some prev" and "isFailure prev"
  shows "\<exists>s. states (fst (checkFunc h cfg dat (Some m) checked now)) (Config.Name cfg) = Some s \<and>
           Status s = ''failed'' \<and>
           TimeOfFirstFailure s = TimeOfFirstFailure prev \<and>
           ContiguousFailures s = ContiguousFailures prev + 1 \<and>
           fst (snd (checkFunc h cfg dat (Some m) checked now)) =
             (if StatusListener h
              then [StillFailing (s\<lparr>ContiguousFailures := 0\<rparr>) (ContiguousFailures prev)]
              else [])"
  using assms by (auto simp: check_defs)

theorem still_failing_witness:
  "states (run (boot True @ [failed_at 1000 1200])) (Config.Name db) =
     Some \<lparr>State.Name = ''db'', Status = ''failed'', Err = ''failure'', Details = Some [],
       CheckTime = 1000, ContiguousFailures = 1, TimeOfFirstFailure = 1200\<rparr> \<and>
   isFailure \<lparr>State.Name = ''db'', Status = ''failed'', Err = ''failure'', Details = Some [],
       CheckTime = 1000, ContiguousFailures = 1, TimeOfFirstFailure = 1200 :: time\<rparr> \<and>
   states (fst (checkFunc (run (boot True @ [failed_at 1000 1200])) db
       (Some []) (Some ''failure'') 2000 2200)) ''db'' =
     Some \<lparr>State.Name = ''db'', Status = ''failed'', Err = ''failure'', Details = Some [],
       CheckTime = 2000, ContiguousFailures = 2, TimeOfFirstFailure = 1200\<rparr> \<and>
   fst (snd (checkFunc (run (boot True @ [failed_at 1000 1200])) db
       (Some []) (Some ''failure'') 2000 2200)) =
     [StillFailing \<lparr>State.Name = ''db'', Status = ''failed'', Err = ''failure'', Details = Some [],
       CheckTime = 2000, ContiguousFailures = 0, TimeOfFirstFailure = 1200\<rparr> 1]"
proof -
  let ?p = "\<lparr>State.Name = ''db'', Status = ''failed'', Err = ''failure'', Details = Some [],
       CheckTime = 1000, ContiguousFailures = 1, TimeOfFirstFailure = 1200\<rparr> :: string State"
  have stored: "states (run (boot True @ [failed_at 1000 1200])) (Config.Name db) = Some ?p"
    by (simp add: eval_defs)
  have failing: "isFailure ?p"
    by (simp add: isFailure_def)
  show ?thesis
    using still_failing[OF stored failing, of "Some []" "''failure''" 2000 2200] stored failing
    by (simp add: eval_defs)
qed

text \<open>
  C2 as first stated: a second failure in a row on a monitor with no listener. No call
  is made.
\<close>

theorem still_failing_unheard:
  "isFailure (the (states (run (boot False @ [failed_at 1000 1200])) ''db'')) \<and>
   \<not> StatusListener (run (boot False @ [failed_at 1000 1200])) \<and>
   fst (snd (checkFunc (run (boot False @ [failed_at 1000 1200])) db
       (Some []) (Some ''failure'') 2000 2200)) = []"
  by (simp add: eval_defs)

text \<open>
  C3, as the code has it. A run without error of a check whose stored entry is failing
  stores an entry with the counter 0 and the zero time of first failure; when a
  listener is attached it starts exactly one call, \<^verbatim>\<open>CheckRecovered\<close> with the counter
  of the stored entry and the seconds from its time of first failure to the clock read
  inside the detector (not to the \<^verbatim>\<open>CheckTime\<close> of the new entry), and none otherwise.
\<close>

theorem recovered:
  assumes "states h (Config.Name cfg) = Some prev" and "isFailure prev"
  shows "\<exists>s. states (fst (checkFunc h cfg dat None checked now)) (Config.Name cfg) = Some s \<and>
           Status s = ''ok'' \<and>
           ContiguousFailures s = 0 \<and>
           TimeOfFirstFailure s = 0 \<and>
           fst (snd (checkFunc h cfg dat None checked now)) =
             (if StatusListener h
              then [CheckRecovered s (ContiguousFailures prev)
                      (Seconds (time_Sub now (TimeOfFirstFailure prev)))]
              else [])"
  using assms by (auto simp: check_defs)

theorem recovered_witness:
  "states (run (boot True @ [failed_at 3999999000 4000000000])) (Config.Name db) =
     Some \<lparr>State.Name = ''db'', Status = ''failed'', Err = ''failure'', Details = Some [],
       CheckTime = 3999999000, ContiguousFailures = 1, TimeOfFirstFailure = 4000000000\<rparr> \<and>
   isFailure \<lparr>State.Name = ''db'', Status = ''failed'', Err = ''failure'', Details = Some [],
       CheckTime = 3999999000, ContiguousFailures = 1, TimeOfFirstFailure = 4000000000 :: time\<rparr> \<and>
   states (fst (checkFunc (run (boot True @ [failed_at 3999999000 4000000000])) db
       (Some ''Working just fine'') None 10000000000 10500000000)) ''db'' =
     Some \<lparr>State.Name = ''db'', Status = ''ok'', Err = [], Details = Some ''Working just fine'',
       CheckTime = 10000000000, ContiguousFailures = 0, TimeOfFirstFailure = 0\<rparr> \<and>
   fst (snd (checkFunc (run (boot True @ [failed_at 3999999000 4000000000])) db
       (Some ''Working just fine'') None 10000000000 10500000000)) =
     [CheckRecovered \<lparr>State.Name = ''db'', Status = ''ok'', Err = [],
        Details = Some ''Working just fine'', CheckTime = 10000000000, ContiguousFailures = 0,
        TimeOfFirstFailure = 0\<rparr> 1 (13 / 2)]"
proof -
  let ?p = "\<lparr>State.Name = ''db'', Status = ''failed'', Err = ''failure'', Details = Some [],
       CheckTime = 3999999000, ContiguousFailures = 1, TimeOfFirstFailure = 4000000000\<rparr>
       :: string State"
  have stored: "states (run (boot True @ [failed_at 3999999000 4000000000])) (Config.Name db)
      = Some ?p"
    by (simp add: eval_defs)
  have failing: "isFailure ?p"
    by (simp add: isFailure_def)
  show ?thesis
    using recovered[OF stored failing, of "Some ''Working just fine''" 10000000000 10500000000]
      stored failing
    by (simp add: eval_defs)
qed

text \<open>
  C3 as first stated: a failure first handled at 4 s, a recovery observed at 10 s and
  handled at 10.5 s. The duration reported is 6.5 s, not the 6 s from the first failure
  to the observation; with no listener no call is made.
\<close>

theorem recovery_duration_from_later_clock:
  "CheckTime (the (states (fst (checkFunc (run (boot True @ [failed_at 3999999000 4000000000])) db
       (Some ''Working just fine'') None 10000000000 10500000000)) ''db'')) = 10000000000 \<and>
   TimeOfFirstFailure (the (states (run (boot True @ [failed_at 3999999000 4000000000])) ''db''))
     = 4000000000 \<and>
   Seconds (time_Sub 10000000000 4000000000) = 6 \<and>
   fst (snd (checkFunc (run (boot True @ [failed_at 3999999000 4000000000])) db
       (Some ''Working just fine'') None 10000000000 10500000000)) =
     [CheckRecovered \<lparr>State.Name = ''db'', Status = ''ok'', Err = [],
        Details = Some ''Working just fine'', CheckTime = 10000000000, ContiguousFailures = 0,
        TimeOfFirstFailure = 0\<rparr> 1 (13 / 2)] \<and>
   isFailure (the (states (run (boot False @ [failed_at 3999999000 4000000000])) ''db'')) \<and>
   fst (snd (checkFunc (run (boot False @ [failed_at 3999999000 4000000000])) db
       (Some ''Working just fine'') None 10000000000 10500000000)) = []"
  by (simp add: eval_defs)

section \<open>Probe errors and what the scheduler returns\<close>

text \<open>
  An operation run on a monitor with another store returns the same error and leaves
  the same monitor, up to the store.
\<close>

lemma startRunnerForConfig_states:
  "startRunnerForConfig (h\<lparr>states := st\<rparr>) c = (startRunnerForConfig h c)\<lparr>states := st\<rparr>"
  by (simp add: startRunnerForConfig_def startRunner_def Let_def)

lemma foldl_startRunnerForConfig_states:
  "foldl startRunnerForConfig (h\<lparr>states := st\<rparr>) cs =
     (foldl startRunnerForConfig h cs)\<lparr>states := st\<rparr>"
  by (induction cs arbitrary: h) (simp_all add: startRunnerForConfig_states)

lemma StopCheck_states:
  "\<exists>st'. StopCheck (h\<lparr>states := st\<rparr>) name =
     (fst (StopCheck h name), (snd (StopCheck h name))\<lparr>states := st'\<rparr>)"
  by (cases "runners h name") (auto simp: StopCheck_def intro: exI[of _ "st(name := None)"] exI[of _ st])

lemma RemoveCheck_from_states:
  "\<exists>st'. RemoveCheck_from pre xs (h\<lparr>states := st\<rparr>) cfg =
     (fst (RemoveCheck_from pre xs h cfg), (snd (RemoveCheck_from pre xs h cfg))\<lparr>states := st'\<rparr>)"
proof (induction xs arbitrary: pre)
  case Nil
  show ?case by (auto intro: exI[of _ st])
next
  case (Cons x xs)
  obtain st' where st': "StopCheck (h\<lparr>states := st\<rparr>) (Config.Name cfg) =
     (fst (StopCheck h (Config.Name cfg)), (snd (StopCheck h (Config.Name cfg)))\<lparr>states := st'\<rparr>)"
    using StopCheck_states by blast
  show ?case
  proof (cases "Config.Name cfg = Config.Name x")
    case False
    then show ?thesis using Cons.IH[of "pre @ [x]"] by simp
  next
    case True
    show ?thesis
    proof (cases "started h")
      case False
      with True show ?thesis by (auto intro: exI[of _ st])
    next
      case st: True
      show ?thesis
      proof (cases "fst (StopCheck h (Config.Name cfg))")
        case None
        with True st st' show ?thesis
          by (cases "StopCheck h (Config.Name cfg)") (auto intro: exI[of _ st'])
      next
        case (Some e)
        with True st st' show ?thesis
          by (cases "StopCheck h (Config.Name cfg)") (auto intro: exI[of _ st'])
      qed
    qed
  qed
qed

lemma exec_states:
  "\<exists>st'. exec (h\<lparr>states := st\<rparr>) c = (fst (exec h c), (snd (exec h c))\<lparr>states := st'\<rparr>)"
proof (cases c)
  case (OpAddCheck cfg)
  then show ?thesis
    by (cases "AddCheck_scan (configs h) cfg") (auto simp: AddCheck_def intro: exI[of _ st])
next
  case (OpRemoveCheck cfg)
  then show ?thesis using RemoveCheck_from_states[where pre="[]" and xs="configs h" and h=h and st=st and cfg=cfg]
    by (simp add: RemoveCheck_def)
next
  case OpStart
  have swap: "h\<lparr>states := st, started := True\<rparr> = h\<lparr>started := True, states := st\<rparr>"
    by simp
  have "foldl startRunnerForConfig (h\<lparr>states := st, started := True\<rparr>) (configs h) =
          (foldl startRunnerForConfig (h\<lparr>started := True\<rparr>) (configs h))\<lparr>states := st\<rparr>"
    by (simp only: swap foldl_startRunnerForConfig_states)
  then show ?thesis using OpStart
    by (auto simp: Start_def intro: exI[of _ st])
next
  case (OpStopCheck name)
  then show ?thesis using StopCheck_states[where h=h and st=st and name=name] by simp
next
  case (OpStartCheck name)
  then show ?thesis
    by (auto simp: StartCheck_def startRunnerForConfig_states intro: exI[of _ st]
        split: option.splits)
next
  case OpStop
  then show ?thesis
    by (auto simp: Stop_def safeResetStates_def Let_def intro: exI[of _ Map.empty])
next
  case OpState
  then show ?thesis by (auto simp: State_def intro: exI[of _ st])
qed

lemma returned_states:
  "returned (h\<lparr>states := st\<rparr>) evs = returned h (filter (\<lambda>ev. \<not> is_Probe ev) evs)"
proof (induction evs arbitrary: h st)
  case Nil
  show ?case by simp
next
  case (Cons ev evs)
  show ?case
  proof (cases ev)
    case (Probe t)
    obtain cfg dat err checked now where t: "t = Tick cfg dat err checked now" by (cases t)
    have "step (h\<lparr>states := st\<rparr>) ev = h\<lparr>states := states (step (h\<lparr>states := st\<rparr>) ev)\<rparr>"
      using Probe t by (simp add: checkFunc_monitor)
    then show ?thesis using Probe Cons.IH by (metis filter.simps(2) is_Probe.simps(1) returned.simps(3))
  next
    case (Call c)
    obtain st' where "exec (h\<lparr>states := st\<rparr>) c = (fst (exec h c), (snd (exec h c))\<lparr>states := st'\<rparr>)"
      using exec_states by blast
    then show ?thesis using Call Cons.IH by simp
  next
    case (Listen l)
    have swap: "h\<lparr>states := st, StatusListener := l\<rparr> = h\<lparr>StatusListener := l, states := st\<rparr>"
      by simp
    have "returned (h\<lparr>states := st\<rparr>) (ev # evs) =
            returned (h\<lparr>states := st, StatusListener := l\<rparr>) evs"
      using Listen by simp
    also have "\<dots> = returned (h\<lparr>StatusListener := l, states := st\<rparr>) evs"
      by (simp only: swap)
    also have "\<dots> = returned (h\<lparr>StatusListener := l\<rparr>) (filter (\<lambda>ev. \<not> is_Probe ev) evs)"
      by (rule Cons.IH)
    also have "\<dots> = returned h (filter (\<lambda>ev. \<not> is_Probe ev) (ev # evs))"
      using Listen by simp
    finally show ?thesis .
  qed
qed

lemma returned_without_probes:
  "returned h evs = returned h (filter (\<lambda>ev. \<not> is_Probe ev) evs)"
  using returned_states[where h=h and st="states h" and evs=evs] by simp

text \<open>
  C9. A run of \<^verbatim>\<open>checkFunc\<close> changes the monitor in one place, the entry stored under
  the name of the config: with a probe error its status is \<open>failed\<close> and its error text
  the message of the error, without one its status is \<open>ok\<close> and its error text empty.
  And in every history the operations of the scheduler return what they return in the
  history without the runs of the probes: no answer of a probe changes the error of
  an operation.
\<close>

theorem probe_error_folded:
  "(\<exists>s. fst (checkFunc h cfg dat err checked now) =
          h\<lparr>states := (states h)(Config.Name cfg \<mapsto> s)\<rparr> \<and>
        (case err of
           Some m \<Rightarrow> Status s = ''failed'' \<and> Err s = m
         | None \<Rightarrow> Status s = ''ok'' \<and> Err s = [])) \<and>
   returned h evs = returned h (filter (\<lambda>ev. \<not> is_Probe ev) evs)"
proof -
  have "fst (checkFunc h cfg dat err checked now) =
          h\<lparr>states := (states h)(Config.Name cfg \<mapsto>
            fst (handleStatusListener h (buildEntry cfg dat err checked) now))\<rparr> \<and>
        (case err of
           Some m \<Rightarrow>
             Status (fst (handleStatusListener h (buildEntry cfg dat err checked) now))
               = ''failed'' \<and>
             Err (fst (handleStatusListener h (buildEntry cfg dat err checked) now)) = m
         | None \<Rightarrow>
             Status (fst (handleStatusListener h (buildEntry cfg dat err checked) now))
               = ''ok'' \<and>
             Err (fst (handleStatusListener h (buildEntry cfg dat err checked) now)) = [])"
    by (simp add: checkFunc_monitor split: option.splits)
  then show ?thesis using returned_without_probes[of h evs] by blast
qed

theorem probe_error_folded_witness:
  "states (fst (checkFunc (run (boot True)) db (Some []) (Some ''failure'') 1000 1200)) ''db'' =
     Some \<lparr>State.Name = ''db'', Status = ''failed'', Err = ''failure'', Details = Some [],
       CheckTime = 1000, ContiguousFailures = 1, TimeOfFirstFailure = 1200\<rparr> \<and>
   returned (New :: string Monitor) failing_between_calls =
     [None, None, Some AlreadyStarted, None, None, None, None, Some (FailedToFindCheck ''db''),
      None] \<and>
   returned (New :: string Monitor) (filter (\<lambda>ev. \<not> is_Probe ev) failing_between_calls) =
     [None, None, Some AlreadyStarted, None, None, None, None, Some (FailedToFindCheck ''db''),
      None]"
proof -
  have "returned (New :: string Monitor) (filter (\<lambda>ev. \<not> is_Probe ev) failing_between_calls) =
     [None, None, Some AlreadyStarted, None, None, None, None, Some (FailedToFindCheck ''db''),
      None]"
    by (simp add: failing_between_calls_def eval_defs Stop_def State_def safeGetStates_def
        safeResetStates_def)
  moreover have "states (fst (checkFunc (run (boot True)) db (Some []) (Some ''failure'')
       1000 1200)) ''db'' =
     Some \<lparr>State.Name = ''db'', Status = ''failed'', Err = ''failure'', Details = Some [],
       CheckTime = 1000, ContiguousFailures = 1, TimeOfFirstFailure = 1200\<rparr>"
    by (simp add: eval_defs)
  ultimately show ?thesis
    using probe_error_folded[of "New :: string Monitor" db "Some []" "Some ''failure''"
        1000 1200 failing_between_calls]
    by simp
qed

end
